theory Spec2Isabelle
  imports Main "HOL-Library.Sublist"
begin

section \<open>Python string primitives used by fix\_nlp\_format.py\<close>

text \<open>
  A Python \<open>str\<close> is modelled as a \<^typ>\<open>string\<close>, one \<^typ>\<open>char\<close> per code point,
  so the model covers the code points below 256. The string constants of the script
  are written out character by character where they hold a backslash, a double quote
  or a line feed.
\<close>

definition NL :: string where
  \<comment> \<open>\<^verbatim>\<open>'\n'\<close>: one line feed\<close>
  "NL = [CHR 0x0A]"

definition ESC_N :: string where
  \<comment> \<open>\<^verbatim>\<open>r'\n'\<close>: a backslash and the letter n\<close>
  "ESC_N = [CHR 0x5C, CHR ''n'']"

definition ESC_ESC_N :: string where
  \<comment> \<open>\<^verbatim>\<open>r'\\n'\<close>: two backslashes and the letter n\<close>
  "ESC_ESC_N = [CHR 0x5C, CHR 0x5C, CHR ''n'']"

definition ESC_QUOTE :: string where
  \<comment> \<open>\<^verbatim>\<open>r'\"'\<close>: a backslash and a double quote\<close>
  "ESC_QUOTE = [CHR 0x5C, CHR 0x22]"

definition QUOTE :: string where
  \<comment> \<open>\<^verbatim>\<open>'"'\<close>: one double quote\<close>
  "QUOTE = [CHR 0x22]"

definition FENCE :: string where
  \<comment> \<open>three backticks\<close>
  "FENCE = ''```''"

definition FENCE_PYTHON :: string where
  \<comment> \<open>three backticks and the word python\<close>
  "FENCE_PYTHON = ''```python''"

definition isspace :: "char \<Rightarrow> bool" where
  \<comment> \<open>\<^verbatim>\<open>str.isspace\<close> on one code point below 256\<close>
  "isspace c = (c \<in> set [CHR 0x09, CHR 0x0A, CHR 0x0B, CHR 0x0C, CHR 0x0D,
                          CHR 0x1C, CHR 0x1D, CHR 0x1E, CHR 0x1F, CHR 0x20,
                          CHR 0x85, CHR 0xA0])"

definition str_lstrip :: "string \<Rightarrow> string" where
  "str_lstrip s = dropWhile isspace s"

definition str_rstrip :: "string \<Rightarrow> string" where
  "str_rstrip s = rev (dropWhile isspace (rev s))"

definition str_strip :: "string \<Rightarrow> string" where
  "str_strip s = str_rstrip (str_lstrip s)"

definition str_startswith :: "string \<Rightarrow> string \<Rightarrow> bool" where
  "str_startswith s p = prefix p s"

text \<open>\<^verbatim>\<open>sub in s\<close>: some suffix of \<open>s\<close> starts with \<open>sub\<close>.\<close>

fun str_contains :: "string \<Rightarrow> string \<Rightarrow> bool" where
  "str_contains [] sub = (sub = [])"
| "str_contains (c # cs) sub = (prefix sub (c # cs) \<or> str_contains cs sub)"

text \<open>\<^verbatim>\<open>s.find(sub)\<close>: the lowest index where \<open>sub\<close> starts, \<open>-1\<close> when there is none.\<close>

fun str_find :: "string \<Rightarrow> string \<Rightarrow> int" where
  "str_find [] sub = (if sub = [] then 0 else - 1)"
| "str_find (c # cs) sub =
     (if prefix sub (c # cs) then 0
      else (let r = str_find cs sub in if r < 0 then - 1 else r + 1))"

text \<open>
  \<^verbatim>\<open>s.split(sep)\<close>: the occurrences of \<open>sep\<close> are taken from the left, without
  overlap, and the text between them is returned, empty fragments included. The
  script calls it with the constant \<^verbatim>\<open>r'\n'\<close> only; with an empty separator Python
  raises ValueError, and the guard \<open>sep \<noteq> []\<close> keeps that case out of the recursion.
\<close>

function str_split :: "string \<Rightarrow> string \<Rightarrow> string list" where
  "str_split [] sep = [[]]"
| "str_split (c # cs) sep =
     (if sep \<noteq> [] \<and> prefix sep (c # cs)
      then [] # str_split (drop (length sep) (c # cs)) sep
      else (case str_split cs sep of
              [] \<Rightarrow> [[c]]
            | p # ps \<Rightarrow> (c # p) # ps))"
  by pat_completeness auto
termination
  by (relation "measure (\<lambda>(s, sep). length s)") auto

text \<open>
  \<^verbatim>\<open>s.replace(old, new)\<close>: every occurrence of \<open>old\<close>, from the left and without
  overlap, becomes \<open>new\<close>. The script calls it with non-empty constants only.
\<close>

function str_replace :: "string \<Rightarrow> string \<Rightarrow> string \<Rightarrow> string" where
  "str_replace [] old new = []"
| "str_replace (c # cs) old new =
     (if old \<noteq> [] \<and> prefix old (c # cs)
      then new @ str_replace (drop (length old) (c # cs)) old new
      else c # str_replace cs old new)"
  by pat_completeness auto
termination
  by (relation "measure (\<lambda>(s, old, new). length s)") auto

section \<open>The line expander\<close>

text \<open>
  The body of the \<^verbatim>\<open>for i, part in enumerate(parts)\<close> loop: what one fragment
  appends to \<^verbatim>\<open>result\<close>, given \<open>n = len(parts)\<close>.
\<close>

definition expand_part :: "nat \<Rightarrow> nat \<times> string \<Rightarrow> string list" where
  "expand_part n ip =
     (let i = fst ip; part = snd ip in
      if part \<noteq> []
      then [str_replace (str_replace part ESC_ESC_N NL) ESC_QUOTE QUOTE @ NL]
      else if int i < int n - 1 then [NL]
      else [])"

definition fix_code_block_line :: "string \<Rightarrow> string list" where
  "fix_code_block_line line =
     (if \<not> str_contains line ESC_N then [line]
      else (let parts = str_split line ESC_N
            in concat (map (expand_part (length parts)) (enumerate 0 parts))))"

section \<open>The document rewriter\<close>

text \<open>
  The body of the \<^verbatim>\<open>while i < len(lines)\<close> loop of \<^verbatim>\<open>main\<close>, on the pair
  of \<^verbatim>\<open>result\<close> and \<^verbatim>\<open>in_python_block\<close>. The slices \<^verbatim>\<open>line[:idx]\<close> and
  \<^verbatim>\<open>line[idx+9:]\<close> are taken where \<open>idx\<close> is not negative, since the branch is
  guarded by \<^verbatim>\<open>'```python' in line\<close>.
\<close>

definition loop_body :: "string \<Rightarrow> string list \<times> bool \<Rightarrow> string list \<times> bool" where
  "loop_body line st =
     (let result = fst st; in_python_block = snd st in
      if str_strip line = FENCE_PYTHON \<or> str_startswith (str_strip line) (FENCE_PYTHON @ NL)
      then (result @ [line], True)
      else if str_startswith (str_strip line) FENCE \<and> in_python_block
      then (result @ [line], False)
      else if str_contains line FENCE_PYTHON \<and> length line > 20
              \<and> \<not> str_strip line = FENCE_PYTHON
      then (let idx = str_find line FENCE_PYTHON;
                result1 = (if idx > 0
                           then result @ [str_rstrip (take (nat idx) line) @ NL]
                           else result);
                result2 = result1 @ [FENCE_PYTHON @ NL];
                rest = drop (nat (idx + 9)) line;
                expanded = fix_code_block_line rest
            in (result2 @ expanded, True))
      else if in_python_block \<and> str_contains line ESC_N \<and> length line > 150
      then (result @ fix_code_block_line line, in_python_block)
      else (result @ [line], in_python_block))"

text \<open>The loop itself, with its index \<open>i\<close>.\<close>

function loop :: "string list \<Rightarrow> nat \<Rightarrow> string list \<times> bool \<Rightarrow> string list \<times> bool" where
  "loop lines i st =
     (if i < length lines then loop lines (i + 1) (loop_body (lines ! i) st) else st)"
  by pat_completeness auto
termination
  by (relation "measure (\<lambda>(lines, i, st). length lines - i)") auto

declare loop.simps [simp del]

text \<open>The lines \<^verbatim>\<open>main\<close> writes for the lines it read.\<close>

definition rewrite :: "string list \<Rightarrow> string list" where
  "rewrite lines = fst (loop lines 0 ([], False))"

subsection \<open>The file and the report\<close>

text \<open>
  Reading in text mode translates \<^verbatim>\<open>'\r\n'\<close> and \<^verbatim>\<open>'\r'\<close> to \<^verbatim>\<open>'\n'\<close>;
  \<^verbatim>\<open>readlines\<close> cuts the text after each line feed.
\<close>

fun translate_newlines :: "string \<Rightarrow> string" where
  "translate_newlines [] = []"
| "translate_newlines [c] = (if c = CHR 0x0D then [CHR 0x0A] else [c])"
| "translate_newlines (c # d # cs) =
     (if c = CHR 0x0D \<and> d = CHR 0x0A then CHR 0x0A # translate_newlines cs
      else if c = CHR 0x0D then CHR 0x0A # translate_newlines (d # cs)
      else c # translate_newlines (d # cs))"

fun split_keepends :: "string \<Rightarrow> string list" where
  "split_keepends [] = []"
| "split_keepends (c # cs) =
     (if c = CHR 0x0A then [c] # split_keepends cs
      else (case split_keepends cs of
              [] \<Rightarrow> [[c]]
            | l # ls \<Rightarrow> (c # l) # ls))"

definition readlines :: "string \<Rightarrow> string list" where
  \<comment> \<open>the lines of a decoded text\<close>
  "readlines text = split_keepends (translate_newlines text)"

text \<open>\<^verbatim>\<open>str\<close> of a number, as the f-strings of the report format it.\<close>

function str_of_nat :: "nat \<Rightarrow> string" where
  "str_of_nat n =
     (if n < 10 then [''0123456789'' ! n]
      else str_of_nat (n div 10) @ [''0123456789'' ! (n mod 10)])"
  by pat_completeness auto
termination
  by (relation "measure id") auto

declare str_of_nat.simps [simp del]

definition str_of_int :: "int \<Rightarrow> string" where
  "str_of_int k = (if k < 0 then CHR ''-'' # str_of_nat (nat (- k)) else str_of_nat (nat k))"

text \<open>The difference \<^verbatim>\<open>len(result) - len(lines)\<close> of the report.\<close>

definition expansion :: "string list \<Rightarrow> int" where
  "expansion lines = int (length (rewrite lines)) - int (length lines)"

text \<open>What the two calls of \<^verbatim>\<open>print\<close> write, line feed included.\<close>

definition report_processed :: "string list \<Rightarrow> string" where
  "report_processed lines =
     ''Processed '' @ str_of_nat (length lines) @ '' lines -> ''
       @ str_of_nat (length (rewrite lines)) @ '' lines'' @ NL"

definition report_expansion :: "string list \<Rightarrow> string" where
  "report_expansion lines =
     ''Expansion: '' @ str_of_int (expansion lines) @ '' additional lines'' @ NL"

definition report :: "string list \<Rightarrow> string" where
  "report lines = report_processed lines @ report_expansion lines"

text \<open>
  The script does three things to the world outside it, and each of them can raise. They
  are parameters of the model, on a state of the world \<open>'w\<close> and exceptions \<open>'e\<close>, so that
  nothing is assumed about when they fail or with which exception:
  \<^item> \<open>os_read\<close> is the \<^verbatim>\<open>with\<close> block of lines 29 and 30, \<^verbatim>\<open>open(..., 'r')\<close> and the
    reading and decoding of \<^verbatim>\<open>readlines\<close>: the decoded text of the target file, or the
    exception. Reading changes nothing in the world.
  \<^item> \<open>os_write\<close> is the \<^verbatim>\<open>with\<close> block of lines 68 and 69, \<^verbatim>\<open>open(..., 'w')\<close> and
    \<^verbatim>\<open>writelines\<close>, on the text written: the world it leaves, and the exception if it
    raised one.
  \<^item> \<open>os_print\<close> is one call of \<^verbatim>\<open>print\<close>.
\<close>

record ('w, 'e) os =
  os_read :: "'w \<Rightarrow> 'e + string"
  os_write :: "'w \<Rightarrow> string \<Rightarrow> 'e option \<times> 'w"
  os_print :: "'w \<Rightarrow> string \<Rightarrow> 'e option \<times> 'w"

text \<open>
  \<^verbatim>\<open>main\<close>: the file is read, the lines are rewritten, the file is written and the two
  lines of the report are printed. The script catches nothing: the first exception ends
  \<^verbatim>\<open>main\<close>, in the world as it is then.
\<close>

definition main :: "('w, 'e) os \<Rightarrow> 'w \<Rightarrow> ('e + unit) \<times> 'w" where
  "main os w =
     (case os_read os w of
        Inl e \<Rightarrow> (Inl e, w)
      | Inr text \<Rightarrow>
          (let lines = readlines text;
               result = rewrite lines
           in case os_write os w (concat result) of
                (Some e, w1) \<Rightarrow> (Inl e, w1)
              | (None, w1) \<Rightarrow>
                  (case os_print os w1 (report_processed lines) of
                     (Some e, w2) \<Rightarrow> (Inl e, w2)
                   | (None, w2) \<Rightarrow>
                       (case os_print os w2 (report_expansion lines) of
                          (Some e, w3) \<Rightarrow> (Inl e, w3)
                        | (None, w3) \<Rightarrow> (Inr (), w3)))))"

text \<open>
  One environment, for the examples: the target file is absent, a directory, bytes that
  are not UTF-8, or a text; it may be read-only; the standard output takes a number of
  characters and no more (a pipe that is closed takes none).
\<close>

datatype py_error =
  FileNotFoundError | IsADirectoryError | PermissionError | UnicodeDecodeError | BrokenPipeError

datatype file_state = Missing | Directory | Undecodable | Text string

record world =
  target :: file_state
  writable :: bool
  stdout :: string
  stdout_room :: nat

definition example_os :: "(world, py_error) os" where
  "example_os =
     \<lparr>os_read = (\<lambda>w. case target w of
                         Missing \<Rightarrow> Inl FileNotFoundError
                       | Directory \<Rightarrow> Inl IsADirectoryError
                       | Undecodable \<Rightarrow> Inl UnicodeDecodeError
                       | Text s \<Rightarrow> Inr s),
      os_write = (\<lambda>w s. if writable w then (None, w\<lparr>target := Text s\<rparr>)
                         else (Some PermissionError, w)),
      os_print = (\<lambda>w s. if length s \<le> stdout_room w
                         then (None, w\<lparr>stdout := stdout w @ s,
                                       stdout_room := stdout_room w - length s\<rparr>)
                         else (Some BrokenPipeError, w))\<rparr>"

subsection \<open>One line at a time\<close>

text \<open>
  What one pass of the loop body appends and the state it leaves, and the same for a
  run of the loop over a list of lines from a given state.
\<close>

definition line_out :: "bool \<Rightarrow> string \<Rightarrow> string list" where
  "line_out b line = fst (loop_body line ([], b))"

definition line_state :: "bool \<Rightarrow> string \<Rightarrow> bool" where
  "line_state b line = snd (loop_body line ([], b))"

fun run :: "bool \<Rightarrow> string list \<Rightarrow> string list" where
  "run b [] = []"
| "run b (l # ls) = line_out b l @ run (line_state b l) ls"

fun state_after :: "bool \<Rightarrow> string list \<Rightarrow> bool" where
  "state_after b [] = b"
| "state_after b (l # ls) = state_after (line_state b l) ls"

text \<open>\<^verbatim>\<open>sep.join(xs)\<close>, to state what \<^verbatim>\<open>split\<close> returns.\<close>

fun str_join :: "string \<Rightarrow> string list \<Rightarrow> string" where
  "str_join sep [] = []"
| "str_join sep [x] = x"
| "str_join sep (x # y # ys) = x @ sep @ str_join sep (y # ys)"

section \<open>Properties of the string primitives\<close>

lemma str_contains_iff: "str_contains s sub \<longleftrightarrow> (\<exists>ps ss. s = ps @ sub @ ss)"
proof (induction s)
  case Nil
  then show ?case by auto
next
  case (Cons c cs)
  show ?case
  proof
    assume "str_contains (c # cs) sub"
    then consider "prefix sub (c # cs)" | "str_contains cs sub" by auto
    then show "\<exists>ps ss. c # cs = ps @ sub @ ss"
    proof cases
      case 1
      then obtain ss where "c # cs = sub @ ss" by (auto simp: prefix_def)
      then have "c # cs = [] @ sub @ ss" by simp
      then show ?thesis by blast
    next
      case 2
      with Cons.IH obtain ps ss where "cs = ps @ sub @ ss" by auto
      then have "c # cs = (c # ps) @ sub @ ss" by simp
      then show ?thesis by blast
    qed
  next
    assume "\<exists>ps ss. c # cs = ps @ sub @ ss"
    then obtain ps ss where eq: "c # cs = ps @ sub @ ss" by auto
    show "str_contains (c # cs) sub"
    proof (cases ps)
      case Nil
      with eq have "prefix sub (c # cs)" by (simp add: prefix_def)
      then show ?thesis by simp
    next
      case (Cons p ps')
      with eq have "cs = ps' @ sub @ ss" by simp
      with Cons.IH have "str_contains cs sub" by blast
      then show ?thesis by simp
    qed
  qed
qed

lemma str_split_nonempty: "str_split s sep \<noteq> []"
  by (induction s sep rule: str_split.induct) (auto split: list.splits)

lemma str_split_hd_prefix: "prefix (hd (str_split s sep)) s"
  by (induction s sep rule: str_split.induct) (auto split: list.splits)

lemma str_split_no_sep:
  "sep \<noteq> [] \<Longrightarrow> p \<in> set (str_split s sep) \<Longrightarrow> \<not> str_contains p sep"
proof (induction s sep arbitrary: p rule: str_split.induct)
  case (1 sep)
  then show ?case by simp
next
  case (2 c cs sep)
  show ?case
  proof (cases "prefix sep (c # cs)")
    case True
    with 2 show ?thesis by auto
  next
    case False
    obtain q qs where q: "str_split cs sep = q # qs"
      using str_split_nonempty [of cs sep] by (cases "str_split cs sep") auto
    with False 2 have p: "p = c # q \<or> p \<in> set qs" by auto
    have pq: "prefix q cs" using str_split_hd_prefix [of cs sep] q by simp
    show ?thesis
    proof (cases "p = c # q")
      case True
      have "\<not> prefix sep (c # q)"
        using False pq by (meson Cons_prefix_Cons prefix_order.trans)
      moreover have "\<not> str_contains q sep" using 2(2) [of q] False 2(3) q by simp
      ultimately show ?thesis using True by simp
    next
      case False2: False
      with p have "p \<in> set (str_split cs sep)" using q by simp
      then show ?thesis using 2(2) False 2(3) by simp
    qed
  qed
qed

lemma str_split_join: "str_join sep (str_split s sep) = s"
proof (induction s sep rule: str_split.induct)
  case (1 sep)
  then show ?case by simp
next
  case (2 c cs sep)
  obtain q qs where q: "str_split cs sep = q # qs"
    using str_split_nonempty [of cs sep] by (cases "str_split cs sep") auto
  show ?case
  proof (cases "sep \<noteq> [] \<and> prefix sep (c # cs)")
    case True
    obtain r rs where r: "str_split (drop (length sep) (c # cs)) sep = r # rs"
      using str_split_nonempty [of "drop (length sep) (c # cs)" sep]
      by (cases "str_split (drop (length sep) (c # cs)) sep") auto
    have "str_join sep ([] # r # rs) = sep @ drop (length sep) (c # cs)"
      using 2(1) True r by simp
    also have "\<dots> = c # cs" using True by (auto simp: prefix_def)
    finally show ?thesis using True r by simp
  next
    case False
    have "str_join sep ((c # q) # qs) = c # str_join sep (q # qs)"
      by (cases qs) auto
    then show ?thesis using False 2(2) q by auto
  qed
qed

lemma str_split_absent: "\<not> str_contains s sep \<Longrightarrow> str_split s sep = [s]"
  by (induction s sep rule: str_split.induct) auto

lemma str_split_present:
  "sep \<noteq> [] \<Longrightarrow> str_contains s sep \<Longrightarrow> 2 \<le> length (str_split s sep)"
proof (induction s sep rule: str_split.induct)
  case (1 sep)
  then show ?case by simp
next
  case (2 c cs sep)
  show ?case
  proof (cases "prefix sep (c # cs)")
    case True
    then show ?thesis
      using 2(3) str_split_nonempty [of "drop (length sep) (c # cs)" sep]
      by (cases "str_split (drop (length sep) (c # cs)) sep") auto
  next
    case False
    with 2 have "2 \<le> length (str_split cs sep)" by auto
    then show ?thesis using False by (auto split: list.splits)
  qed
qed

lemma str_replace_absent: "\<not> str_contains s old \<Longrightarrow> str_replace s old new = s"
  by (induction s old new rule: str_replace.induct) auto

lemma str_contains_longer:
  "str_contains s (pre @ sub @ post) \<Longrightarrow> str_contains s sub"
  unfolding str_contains_iff by (metis append.assoc)

lemmas consts_defs = NL_def ESC_N_def ESC_ESC_N_def ESC_QUOTE_def QUOTE_def FENCE_def FENCE_PYTHON_def

lemma part_no_double_escape:
  "part \<in> set (str_split line ESC_N) \<Longrightarrow> str_replace part ESC_ESC_N NL = part"
proof -
  assume a: "part \<in> set (str_split line ESC_N)"
  have "\<not> str_contains part ESC_N"
    using str_split_no_sep [OF _ a] by (simp add: ESC_N_def)
  moreover have "ESC_ESC_N = [CHR 0x5C] @ ESC_N @ []"
    by (simp add: ESC_ESC_N_def ESC_N_def)
  ultimately have "\<not> str_contains part ESC_ESC_N"
    using str_contains_longer [of part "[CHR 0x5C]" ESC_N "[]"] by auto
  then show ?thesis by (rule str_replace_absent)
qed

lemma expand_part_fragment:
  "part \<in> set (str_split line ESC_N) \<Longrightarrow>
   expand_part n (i, part) =
     (if part \<noteq> [] then [str_replace part ESC_QUOTE QUOTE @ NL]
      else if Suc i < n then [NL] else [])"
  by (auto simp: expand_part_def part_no_double_escape)

lemma loop_body_acc:
  "loop_body line (result, b) = (result @ line_out b line, line_state b line)"
  by (simp add: loop_body_def line_out_def line_state_def Let_def)

lemma loop_run:
  "loop lines i (result, b) =
     (result @ run b (drop i lines), state_after b (drop i lines))"
proof (induction lines i "(result, b)" arbitrary: result b rule: loop.induct)
  case (1 lines i)
  show ?case
  proof (cases "i < length lines")
    case True
    then have d: "drop i lines = lines ! i # drop (Suc i) lines"
      by (simp add: Cons_nth_drop_Suc)
    have "loop lines i (result, b) =
          loop lines (i + 1) (result @ line_out b (lines ! i), line_state b (lines ! i))"
      using True by (subst loop.simps) (simp add: loop_body_acc)
    also have "\<dots> = ((result @ line_out b (lines ! i)) @ run (line_state b (lines ! i)) (drop (i + 1) lines),
                     state_after (line_state b (lines ! i)) (drop (i + 1) lines))"
      using 1 [OF True, of "result @ line_out b (lines ! i)" "line_state b (lines ! i)"]
      by (simp add: loop_body_acc)
    finally show ?thesis using d by simp
  next
    case False
    then show ?thesis by (subst loop.simps) simp
  qed
qed

lemma rewrite_run: "rewrite lines = run False lines"
  by (simp add: rewrite_def loop_run)

lemma run_append: "run b (xs @ ys) = run b xs @ run (state_after b xs) ys"
  by (induction xs arbitrary: b) auto


lemma fix_code_block_line_nonempty: "fix_code_block_line line \<noteq> []"
proof (cases "str_contains line ESC_N")
  case False
  then show ?thesis by (simp add: fix_code_block_line_def)
next
  case True
  have "2 \<le> length (str_split line ESC_N)"
    using str_split_present [OF _ True] by (simp add: ESC_N_def)
  then obtain p q rs where s: "str_split line ESC_N = p # q # rs"
    by (cases "str_split line ESC_N"; cases "tl (str_split line ESC_N)") auto
  have "expand_part (length (p # q # rs)) (0, p) \<noteq> []"
    by (simp add: expand_part_def)
  then show ?thesis
    using True s by (simp add: fix_code_block_line_def enumerate_eq_zip upt_rec)
qed

lemma line_out_nonempty: "line_out b line \<noteq> []"
  by (simp add: line_out_def loop_body_def Let_def fix_code_block_line_nonempty)

lemma length_run: "length ls \<le> length (run b ls)"
proof (induction ls arbitrary: b)
  case Nil
  then show ?case by simp
next
  case (Cons l ls)
  have "1 \<le> length (line_out b l)"
    using line_out_nonempty [of b l] by (cases "line_out b l") auto
  then show ?case using Cons [of "line_state b l"] by simp
qed






lemma str_find_nonneg_iff: "0 \<le> str_find s sub \<longleftrightarrow> str_contains s sub"
  by (induction s) (auto simp: Let_def)

lemma str_find_ge: "- 1 \<le> str_find s sub"
  by (induction s) (auto simp: Let_def)

lemma str_find_decomp:
  "str_contains s sub \<Longrightarrow>
   s = take (nat (str_find s sub)) s @ sub @ drop (nat (str_find s sub) + length sub) s"
proof (induction s)
  case Nil
  then show ?case by simp
next
  case (Cons c cs)
  show ?case
  proof (cases "prefix sub (c # cs)")
    case True
    then have "sub @ drop (length sub) (c # cs) = c # cs"
      by (metis append_eq_conv_conj prefix_def)
    moreover have "str_find (c # cs) sub = 0" using True by simp
    ultimately show ?thesis by simp
  next
    case False
    with Cons.prems have c: "str_contains cs sub" by simp
    then have n: "0 \<le> str_find cs sub" by (simp add: str_find_nonneg_iff)
    then have f: "str_find (c # cs) sub = str_find cs sub + 1"
      using False by (simp add: Let_def)
    have "nat (str_find cs sub + 1) = Suc (nat (str_find cs sub))" using n by simp
    then show ?thesis using Cons.IH [OF c] f by simp
  qed
qed

lemma str_find_least: "s = ps @ sub @ ss \<Longrightarrow> str_find s sub \<le> int (length ps)"
proof (induction s arbitrary: ps)
  case Nil
  then show ?case by simp
next
  case (Cons c cs)
  show ?case
  proof (cases "prefix sub (c # cs)")
    case True
    then show ?thesis by simp
  next
    case False
    with Cons.prems obtain ps' where ps: "ps = c # ps'" "cs = ps' @ sub @ ss"
      by (cases ps) (auto simp: prefix_def)
    then have "str_find cs sub \<le> int (length ps')" using Cons.IH by simp
    then show ?thesis using ps False by (simp add: Let_def)
  qed
qed

lemma str_rstrip_decomp: "\<exists>b. s = str_rstrip s @ b"
proof -
  have "rev (takeWhile isspace (rev s) @ dropWhile isspace (rev s)) = rev (rev s)"
    by (simp only: takeWhile_dropWhile_id)
  then have "rev (dropWhile isspace (rev s)) @ rev (takeWhile isspace (rev s)) = s"
    by (simp only: rev_append rev_rev_ident)
  then have "s = str_rstrip s @ rev (takeWhile isspace (rev s))"
    by (simp only: str_rstrip_def)
  then show ?thesis by blast
qed

lemma str_strip_decomp: "\<exists>a b. s = a @ str_strip s @ b"
proof -
  obtain b where b: "str_lstrip s = str_strip s @ b"
    using str_rstrip_decomp [of "str_lstrip s"] by (auto simp: str_strip_def)
  have "s = takeWhile isspace s @ str_lstrip s" by (simp add: str_lstrip_def)
  with b have "s = takeWhile isspace s @ str_strip s @ b" by simp
  then show ?thesis by blast
qed

lemma str_strip_contains:
  "str_contains (str_strip s) sub \<Longrightarrow> str_contains s sub"
proof -
  assume "str_contains (str_strip s) sub"
  then obtain ps ss where "str_strip s = ps @ sub @ ss" by (auto simp: str_contains_iff)
  moreover obtain a b where "s = a @ str_strip s @ b" using str_strip_decomp by blast
  ultimately have "s = (a @ ps) @ sub @ (ss @ b)" by simp
  then show ?thesis unfolding str_contains_iff by blast
qed

lemma str_startswith_contains: "str_startswith s (p @ q) \<Longrightarrow> str_contains s p"
  unfolding str_startswith_def str_contains_iff prefix_def
  by (metis append.assoc append_Nil)

lemma no_marker_not_open:
  assumes "\<not> str_contains line FENCE_PYTHON"
  shows "str_strip line \<noteq> FENCE_PYTHON"
    and "\<not> str_startswith (str_strip line) (FENCE_PYTHON @ NL)"
proof -
  have n: "\<not> str_contains (str_strip line) FENCE_PYTHON"
    using assms str_strip_contains by blast
  have "str_contains FENCE_PYTHON FENCE_PYTHON"
    unfolding str_contains_iff by (metis append_Nil append_Nil2)
  with n show "str_strip line \<noteq> FENCE_PYTHON" by auto
  show "\<not> str_startswith (str_strip line) (FENCE_PYTHON @ NL)"
    using n str_startswith_contains by blast
qed

lemma loop_body_outside_plain:
  assumes "\<not> (str_contains line FENCE_PYTHON \<and> 20 < length line
              \<and> str_strip line \<noteq> FENCE_PYTHON
              \<and> \<not> str_startswith (str_strip line) (FENCE_PYTHON @ NL))"
  shows "loop_body line (result, False) =
           (result @ [line],
            str_strip line = FENCE_PYTHON
            \<or> str_startswith (str_strip line) (FENCE_PYTHON @ NL))"
  using assms by (auto simp: loop_body_def Let_def)

lemma run_no_marker:
  "\<forall>l \<in> set lines. \<not> str_contains l FENCE_PYTHON \<Longrightarrow>
   run False lines = lines \<and> state_after False lines = False"
proof (induction lines)
  case Nil
  then show ?case by simp
next
  case (Cons l ls)
  then have n: "\<not> str_contains l FENCE_PYTHON" by simp
  have "loop_body l ([], False) = ([l], False)"
    using loop_body_outside_plain [of l "[]"] n no_marker_not_open [OF n] by simp
  then have "line_out False l = [l]" "line_state False l = False"
    by (simp_all add: line_out_def line_state_def)
  then show ?case using Cons by simp
qed

lemma loop_body_glued:
  assumes c: "str_contains line FENCE_PYTHON"
    and l: "20 < length line"
    and n: "str_strip line \<noteq> FENCE_PYTHON"
    and r1: "\<not> str_startswith (str_strip line) (FENCE_PYTHON @ NL)"
    and r2: "\<not> (str_startswith (str_strip line) FENCE \<and> in_python_block)"
  shows "loop_body line (result, in_python_block) =
           (result
            @ (if take (nat (str_find line FENCE_PYTHON)) line \<noteq> []
               then [str_rstrip (take (nat (str_find line FENCE_PYTHON)) line) @ NL] else [])
            @ [FENCE_PYTHON @ NL]
            @ fix_code_block_line (drop (nat (str_find line FENCE_PYTHON) + 9) line),
            True)"
proof -
  have f: "0 \<le> str_find line FENCE_PYTHON" using c by (simp add: str_find_nonneg_iff)
  have e: "take (nat (str_find line FENCE_PYTHON)) line \<noteq> [] \<longleftrightarrow> 0 < str_find line FENCE_PYTHON"
    using l by auto
  have d: "nat (str_find line FENCE_PYTHON + 9) = nat (str_find line FENCE_PYTHON) + 9"
    using f by simp
  show ?thesis
    using c l n r1 r2 unfolding loop_body_def Let_def e d by auto
qed

lemma example_glued_contains:
  "str_contains (FENCE_PYTHON @ ''def foo():'' @ ESC_N @ ''    return 1'' @ ESC_N) FENCE_PYTHON"
  by (simp add: consts_defs)

lemma example_glued_strip:
  "str_strip (FENCE_PYTHON @ ''def foo():'' @ ESC_N @ ''    return 1'' @ ESC_N)
     = FENCE_PYTHON @ ''def foo():'' @ ESC_N @ ''    return 1'' @ ESC_N"
  by (simp add: consts_defs str_strip_def str_rstrip_def str_lstrip_def isspace_def)

lemma example_glued_outside:
  "loop_body (FENCE_PYTHON @ ''def foo():'' @ ESC_N @ ''    return 1'' @ ESC_N) (result, False)
     = (result @ [FENCE_PYTHON @ NL, ''def foo():'' @ NL, ''    return 1'' @ NL], True)"
  unfolding loop_body_def Let_def example_glued_strip
  by (simp add: consts_defs str_startswith_def fix_code_block_line_def expand_part_def
        enumerate_eq_zip upt_rec)

lemma long_line_facts:
  "str_contains (''x = 1'' @ ESC_N @ replicate 150 (CHR ''y'')) ESC_N
   \<and> 150 < length (''x = 1'' @ ESC_N @ replicate 150 (CHR ''y''))
   \<and> \<not> (str_strip (''x = 1'' @ ESC_N @ replicate 150 (CHR ''y'')) = FENCE_PYTHON
         \<or> str_startswith (str_strip (''x = 1'' @ ESC_N @ replicate 150 (CHR ''y'')))
              (FENCE_PYTHON @ NL))
   \<and> \<not> str_startswith (str_strip (''x = 1'' @ ESC_N @ replicate 150 (CHR ''y''))) FENCE
   \<and> \<not> str_contains (''x = 1'' @ ESC_N @ replicate 150 (CHR ''y'')) FENCE_PYTHON
   \<and> fix_code_block_line (''x = 1'' @ ESC_N @ replicate 150 (CHR ''y''))
       = [''x = 1'' @ NL, replicate 150 (CHR ''y'') @ NL]"
  by code_simp

lemma short_line_facts:
  "\<not> (str_strip (''x = 1'' @ ESC_N @ NL) = FENCE_PYTHON
         \<or> str_startswith (str_strip (''x = 1'' @ ESC_N @ NL)) (FENCE_PYTHON @ NL))
   \<and> \<not> str_startswith (str_strip (''x = 1'' @ ESC_N @ NL)) FENCE
   \<and> \<not> str_contains (''x = 1'' @ ESC_N @ NL) FENCE_PYTHON
   \<and> \<not> 150 < length (''x = 1'' @ ESC_N @ NL)
   \<and> str_contains (''x = 1'' @ ESC_N @ NL) ESC_N"
  by code_simp

lemma rewrite_append_outside:
  assumes "state_after False xs = False"
    and "\<not> (str_contains l FENCE_PYTHON \<and> 20 < length l \<and> str_strip l \<noteq> FENCE_PYTHON
            \<and> \<not> str_startswith (str_strip l) (FENCE_PYTHON @ NL))"
  shows "rewrite (xs @ l # ys) = rewrite xs @ [l] @ run (line_state False l) ys"
proof -
  have "line_out False l = [l]"
    using loop_body_outside_plain [OF assms(2), of "[]"] by (simp add: line_out_def)
  then show ?thesis
    using assms(1) by (simp add: rewrite_run run_append)
qed

lemma str_contains_Cons: "str_contains cs sub \<Longrightarrow> str_contains (c # cs) sub"
  by simp















lemma example_os_facts:
  "os_read example_os \<lparr>target = Directory, writable = True, stdout = ''log'', stdout_room = 99\<rparr>
     = Inl IsADirectoryError
   \<and> os_read example_os \<lparr>target = Text ''ab'', writable = False, stdout = [], stdout_room = 99\<rparr>
     = Inr ''ab''
   \<and> os_write example_os
        \<lparr>target = Text ''ab'', writable = False, stdout = [], stdout_room = 99\<rparr>
        (concat (rewrite (readlines ''ab'')))
     = (Some PermissionError,
        \<lparr>target = Text ''ab'', writable = False, stdout = [], stdout_room = 99\<rparr>)
   \<and> readlines (''x'' @ ESC_N) = [''x'' @ ESC_N]
   \<and> rewrite [''x'' @ ESC_N] = [''x'' @ ESC_N]
   \<and> report_processed [''x'' @ ESC_N] = ''Processed 1 lines -> 1 lines'' @ NL
   \<and> report_expansion [''x'' @ ESC_N] = ''Expansion: 0 additional lines'' @ NL
   \<and> length (''Processed 1 lines -> 1 lines'' @ NL) = 29
   \<and> length (''Expansion: 0 additional lines'' @ NL) = 30"
  by code_simp

section \<open>Claims\<close>

text \<open>
  C1: a line that contains the sequence backslash, n is split at every occurrence of
  it (the fragments joined by the sequence give the line back, and no fragment contains
  it), and the fragments are emitted in order: a non-empty fragment as one line, its
  escaped double quotes replaced by plain ones and a line feed appended; an empty
  fragment that is not the last as a blank line; an empty last fragment as nothing.
\<close>

theorem C1_fragments_emitted_in_order:
  assumes "str_contains line ESC_N"
  shows "str_join ESC_N (str_split line ESC_N) = line
       \<and> (\<forall>part \<in> set (str_split line ESC_N). \<not> str_contains part ESC_N)
       \<and> fix_code_block_line line =
           concat (map (\<lambda>(i, part).
                          if part \<noteq> [] then [str_replace part ESC_QUOTE QUOTE @ NL]
                          else if Suc i < length (str_split line ESC_N) then [NL]
                          else [])
                       (enumerate 0 (str_split line ESC_N)))"
proof (intro conjI)
  show "str_join ESC_N (str_split line ESC_N) = line"
    by (rule str_split_join)
  show "\<forall>part \<in> set (str_split line ESC_N). \<not> str_contains part ESC_N"
    using str_split_no_sep [of ESC_N _ line] by (auto simp: ESC_N_def)
  have eq: "map (expand_part (length (str_split line ESC_N))) (enumerate 0 (str_split line ESC_N)) =
        map (\<lambda>(i, part).
                if part \<noteq> [] then [str_replace part ESC_QUOTE QUOTE @ NL]
                else if Suc i < length (str_split line ESC_N) then [NL]
                else [])
            (enumerate 0 (str_split line ESC_N))"
  proof (rule map_cong)
    fix x assume "x \<in> set (enumerate 0 (str_split line ESC_N))"
    then have "snd x \<in> set (str_split line ESC_N)"
      using nth_mem [of "fst x" "str_split line ESC_N"] by (simp add: in_set_enumerate_eq)
    then show "expand_part (length (str_split line ESC_N)) x =
        (case x of (i, part) \<Rightarrow>
                if part \<noteq> [] then [str_replace part ESC_QUOTE QUOTE @ NL]
                else if Suc i < length (str_split line ESC_N) then [NL]
                else [])"
      using expand_part_fragment [of "snd x" line "length (str_split line ESC_N)" "fst x"]
      by (cases x) simp
  qed simp
  show "fix_code_block_line line =
           concat (map (\<lambda>(i, part).
                          if part \<noteq> [] then [str_replace part ESC_QUOTE QUOTE @ NL]
                          else if Suc i < length (str_split line ESC_N) then [NL]
                          else [])
                       (enumerate 0 (str_split line ESC_N)))"
    unfolding fix_code_block_line_def Let_def eq using assms by simp
qed

theorem C1_fragments_emitted_in_order_witness:
  "str_contains (''a = '' @ ESC_QUOTE @ ''b'' @ ESC_QUOTE @ ESC_N @ ESC_N @ ''c'' @ ESC_N) ESC_N
   \<and> fix_code_block_line (''a = '' @ ESC_QUOTE @ ''b'' @ ESC_QUOTE @ ESC_N @ ESC_N @ ''c'' @ ESC_N)
       = [''a = '' @ QUOTE @ ''b'' @ QUOTE @ NL, NL, ''c'' @ NL]"
proof -
  have h: "str_contains (''a = '' @ ESC_QUOTE @ ''b'' @ ESC_QUOTE @ ESC_N @ ESC_N @ ''c'' @ ESC_N) ESC_N"
    by (simp add: consts_defs)
  show ?thesis
    using h C1_fragments_emitted_in_order [OF h]
    by (simp add: consts_defs enumerate_eq_zip upt_rec)
qed

text \<open>
  C7: a line that does not contain the two-character sequence backslash, n is returned
  by the line expander unchanged, as a sequence of one element; so is the empty line.
\<close>

theorem C7_no_escape_unchanged:
  "(\<nexists>ps ss. line = ps @ ESC_N @ ss) \<Longrightarrow> fix_code_block_line line = [line]"
  by (simp add: fix_code_block_line_def str_contains_iff)

theorem C7_no_escape_unchanged_witness:
  "(\<nexists>ps ss. ''x = 1'' = ps @ ESC_N @ ss) \<and> fix_code_block_line ''x = 1'' = [''x = 1'']
   \<and> (\<nexists>ps ss. [] = ps @ ESC_N @ ss) \<and> fix_code_block_line [] = [[]]"
proof -
  have a: "\<nexists>ps ss. ''x = 1'' = ps @ ESC_N @ ss"
    unfolding str_contains_iff [symmetric] by (simp add: ESC_N_def)
  have b: "\<nexists>ps ss. [] = ps @ ESC_N @ ss"
    by (simp add: ESC_N_def)
  show ?thesis
    using a b C7_no_escape_unchanged [OF a] C7_no_escape_unchanged [OF b] by blast
qed

text \<open>
  C9: the line expander never returns an empty sequence, so every pass of the
  rewriter's loop body makes \<^verbatim>\<open>result\<close> longer by at least one line; the rewritten
  document has at least as many lines as the document read, and the reported expansion
  is never negative.
\<close>

theorem C9_output_never_shorter:
  "fix_code_block_line line \<noteq> []
   \<and> length result < length (fst (loop_body line (result, b)))
   \<and> length lines \<le> length (rewrite lines)
   \<and> 0 \<le> expansion lines"
proof (intro conjI)
  show "fix_code_block_line line \<noteq> []" by (rule fix_code_block_line_nonempty)
  show "length result < length (fst (loop_body line (result, b)))"
    using line_out_nonempty [of b line] by (simp add: loop_body_acc)
  show "length lines \<le> length (rewrite lines)"
    by (simp add: rewrite_run length_run)
  then show "0 \<le> expansion lines" by (simp add: expansion_def)
qed

theorem C9_output_never_shorter_witness:
  "fix_code_block_line (''x'' @ ESC_N) = [''x'' @ NL]
   \<and> length [''a''] < length (fst (loop_body (''x'' @ ESC_N) ([''a''], True)))
   \<and> length [ESC_N, ESC_N] \<le> length (rewrite [ESC_N, ESC_N])
   \<and> 0 \<le> expansion [ESC_N, ESC_N]"
  using C9_output_never_shorter [of "''x'' @ ESC_N" "[''a'']" True "[ESC_N, ESC_N]"]
  by (simp add: fix_code_block_line_def expand_part_def consts_defs enumerate_eq_zip upt_rec)



text \<open>
  C6: the code does not do what the claim says. A doubled backslash before n holds the
  sequence backslash, n, so the split cuts it and leaves one backslash at the end of a
  fragment; the replacement of the doubled form then finds nothing to replace.
\<close>

theorem C6_doubled_backslash_is_split:
  "fix_code_block_line (''s = '' @ QUOTE @ ''a'' @ ESC_ESC_N @ ''b'' @ QUOTE)
     = [''s = '' @ QUOTE @ ''a'' @ [CHR 0x5C] @ NL, ''b'' @ QUOTE @ NL]"
  by (simp add: fix_code_block_line_def expand_part_def consts_defs enumerate_eq_zip upt_rec)

text \<open>
  C8, as amended: when the file cannot be read or decoded, \<^verbatim>\<open>main\<close> ends with that
  exception and the world is as it was: nothing is written and nothing is printed. The
  script recognises no error of its own and catches none: when the read succeeds, an
  exception of the write or of a print ends \<^verbatim>\<open>main\<close> in the same way, and when the
  read, the write and the two prints succeed, \<^verbatim>\<open>main\<close> succeeds.
\<close>

theorem C8_read_failure_writes_nothing:
  "(os_read os w = Inl e \<longrightarrow> main os w = (Inl e, w))
   \<and> (os_read os w = Inr text
      \<and> os_write os w (concat (rewrite (readlines text))) = (Some e, w1)
      \<longrightarrow> main os w = (Inl e, w1))
   \<and> (os_read os w = Inr text
      \<and> os_write os w (concat (rewrite (readlines text))) = (None, w1)
      \<and> os_print os w1 (report_processed (readlines text)) = (Some e, w2)
      \<longrightarrow> main os w = (Inl e, w2))
   \<and> (os_read os w = Inr text
      \<and> os_write os w (concat (rewrite (readlines text))) = (None, w1)
      \<and> os_print os w1 (report_processed (readlines text)) = (None, w2)
      \<and> os_print os w2 (report_expansion (readlines text)) = (Some e, w3)
      \<longrightarrow> main os w = (Inl e, w3))
   \<and> (os_read os w = Inr text
      \<and> os_write os w (concat (rewrite (readlines text))) = (None, w1)
      \<and> os_print os w1 (report_processed (readlines text)) = (None, w2)
      \<and> os_print os w2 (report_expansion (readlines text)) = (None, w3)
      \<longrightarrow> main os w = (Inr (), w3))"
  by (simp add: main_def Let_def)

theorem C8_read_failure_writes_nothing_witness:
  "main example_os \<lparr>target = Directory, writable = True, stdout = ''log'', stdout_room = 99\<rparr>
     = (Inl IsADirectoryError,
        \<lparr>target = Directory, writable = True, stdout = ''log'', stdout_room = 99\<rparr>)
   \<and> main example_os \<lparr>target = Text ''ab'', writable = False, stdout = [], stdout_room = 99\<rparr>
     = (Inl PermissionError,
        \<lparr>target = Text ''ab'', writable = False, stdout = [], stdout_room = 99\<rparr>)
   \<and> main example_os
        \<lparr>target = Text (''x'' @ ESC_N), writable = True, stdout = [], stdout_room = 0\<rparr>
     = (Inl BrokenPipeError,
        \<lparr>target = Text (''x'' @ ESC_N), writable = True, stdout = [], stdout_room = 0\<rparr>)
   \<and> main example_os
        \<lparr>target = Text (''x'' @ ESC_N), writable = True, stdout = [], stdout_room = 40\<rparr>
     = (Inl BrokenPipeError,
        \<lparr>target = Text (''x'' @ ESC_N), writable = True,
         stdout = ''Processed 1 lines -> 1 lines'' @ NL, stdout_room = 11\<rparr>)
   \<and> main example_os
        \<lparr>target = Text (''x'' @ ESC_N), writable = True, stdout = [], stdout_room = 60\<rparr>
     = (Inr (),
        \<lparr>target = Text (''x'' @ ESC_N), writable = True,
         stdout = ''Processed 1 lines -> 1 lines'' @ NL
                  @ ''Expansion: 0 additional lines'' @ NL,
         stdout_room = 1\<rparr>)"
  using C8_read_failure_writes_nothing
          [of example_os
              "\<lparr>target = Directory, writable = True, stdout = ''log'', stdout_room = 99\<rparr>"
              IsADirectoryError]
        C8_read_failure_writes_nothing
          [of example_os
              "\<lparr>target = Text ''ab'', writable = False, stdout = [], stdout_room = 99\<rparr>"
              PermissionError "''ab''"
              "\<lparr>target = Text ''ab'', writable = False, stdout = [], stdout_room = 99\<rparr>"]
        C8_read_failure_writes_nothing
          [of example_os
              "\<lparr>target = Text (''x'' @ ESC_N), writable = True, stdout = [], stdout_room = 0\<rparr>"
              BrokenPipeError "''x'' @ ESC_N"
              "\<lparr>target = Text (''x'' @ ESC_N), writable = True, stdout = [], stdout_room = 0\<rparr>"
              "\<lparr>target = Text (''x'' @ ESC_N), writable = True, stdout = [], stdout_room = 0\<rparr>"]
        C8_read_failure_writes_nothing
          [of example_os
              "\<lparr>target = Text (''x'' @ ESC_N), writable = True, stdout = [], stdout_room = 40\<rparr>"
              BrokenPipeError "''x'' @ ESC_N"
              "\<lparr>target = Text (''x'' @ ESC_N), writable = True, stdout = [], stdout_room = 40\<rparr>"
              "\<lparr>target = Text (''x'' @ ESC_N), writable = True,
                stdout = ''Processed 1 lines -> 1 lines'' @ NL, stdout_room = 11\<rparr>"
              "\<lparr>target = Text (''x'' @ ESC_N), writable = True,
                stdout = ''Processed 1 lines -> 1 lines'' @ NL, stdout_room = 11\<rparr>"]
        C8_read_failure_writes_nothing
          [of example_os
              "\<lparr>target = Text (''x'' @ ESC_N), writable = True, stdout = [], stdout_room = 60\<rparr>"
              _ "''x'' @ ESC_N"
              "\<lparr>target = Text (''x'' @ ESC_N), writable = True, stdout = [], stdout_room = 60\<rparr>"
              "\<lparr>target = Text (''x'' @ ESC_N), writable = True,
                stdout = ''Processed 1 lines -> 1 lines'' @ NL, stdout_room = 31\<rparr>"
              "\<lparr>target = Text (''x'' @ ESC_N), writable = True,
                stdout = ''Processed 1 lines -> 1 lines'' @ NL
                         @ ''Expansion: 0 additional lines'' @ NL,
                stdout_room = 1\<rparr>"]
        example_os_facts
  by (simp add: example_os_def NL_def)

theorem C8_read_failure_writes_nothing_counterexample:
  "os_read example_os
     \<lparr>target = Text (''x'' @ ESC_N @ NL), writable = False, stdout = [], stdout_room = 99\<rparr>
     = Inr (''x'' @ ESC_N @ NL)
   \<and> main example_os
        \<lparr>target = Text (''x'' @ ESC_N @ NL), writable = False, stdout = [], stdout_room = 99\<rparr>
     = (Inl PermissionError,
        \<lparr>target = Text (''x'' @ ESC_N @ NL), writable = False, stdout = [], stdout_room = 99\<rparr>)"
  by (simp add: main_def example_os_def Let_def)

text \<open>
  C2, as amended: a line that contains the Python fence marker, is longer than 20
  characters and whose stripped content is not the marker is split at the first
  occurrence of the marker, provided no earlier branch takes it (its stripped content
  does not start with the marker and a line feed, and it is not a line whose stripped
  content starts with three backticks while the state is inside a block). The text before
  the marker, if there is any, is emitted without its trailing whitespace and with a line
  feed; then the marker with a line feed; then what the line expander returns for the text
  after the marker; the state becomes inside. The line of the spec's example, read while
  the state is outside, gives the three lines of the example.
\<close>

theorem C2_glued_fence_split:
  assumes "str_contains line FENCE_PYTHON"
    and "20 < length line"
    and "str_strip line \<noteq> FENCE_PYTHON"
    and "\<not> str_startswith (str_strip line) (FENCE_PYTHON @ NL)"
    and "\<not> (str_startswith (str_strip line) FENCE \<and> in_python_block)"
  shows "(\<exists>pre rest.
            line = pre @ FENCE_PYTHON @ rest
            \<and> (\<forall>ps ss. line = ps @ FENCE_PYTHON @ ss \<longrightarrow> length pre \<le> length ps)
            \<and> loop_body line (result, in_python_block) =
                (result @ (if pre \<noteq> [] then [str_rstrip pre @ NL] else [])
                   @ [FENCE_PYTHON @ NL] @ fix_code_block_line rest,
                 True))
       \<and> loop_body (FENCE_PYTHON @ ''def foo():'' @ ESC_N @ ''    return 1'' @ ESC_N)
            (result, False)
          = (result @ [FENCE_PYTHON @ NL, ''def foo():'' @ NL, ''    return 1'' @ NL], True)"
proof (intro conjI exI)
  let ?k = "nat (str_find line FENCE_PYTHON)"
  have len: "length FENCE_PYTHON = 9" by (simp add: FENCE_PYTHON_def)
  show "line = take ?k line @ FENCE_PYTHON @ drop (?k + 9) line"
    using str_find_decomp [OF assms(1)] len by simp
  show "\<forall>ps ss. line = ps @ FENCE_PYTHON @ ss \<longrightarrow> length (take ?k line) \<le> length ps"
  proof (intro allI impI)
    fix ps ss assume "line = ps @ FENCE_PYTHON @ ss"
    then have "str_find line FENCE_PYTHON \<le> int (length ps)" by (rule str_find_least)
    then show "length (take ?k line) \<le> length ps" by simp
  qed
  show "loop_body line (result, in_python_block) =
          (result @ (if take ?k line \<noteq> [] then [str_rstrip (take ?k line) @ NL] else [])
             @ [FENCE_PYTHON @ NL] @ fix_code_block_line (drop (?k + 9) line),
           True)"
    using assms by (rule loop_body_glued)
  show "loop_body (FENCE_PYTHON @ ''def foo():'' @ ESC_N @ ''    return 1'' @ ESC_N)
            (result, False)
          = (result @ [FENCE_PYTHON @ NL, ''def foo():'' @ NL, ''    return 1'' @ NL], True)"
    by (rule example_glued_outside)
qed

theorem C2_glued_fence_split_witness:
  "str_contains (''see '' @ FENCE_PYTHON @ ''x = 1'' @ ESC_N @ ''y = 2'') FENCE_PYTHON
   \<and> 20 < length (''see '' @ FENCE_PYTHON @ ''x = 1'' @ ESC_N @ ''y = 2'')
   \<and> str_strip (''see '' @ FENCE_PYTHON @ ''x = 1'' @ ESC_N @ ''y = 2'') \<noteq> FENCE_PYTHON
   \<and> \<not> str_startswith (str_strip (''see '' @ FENCE_PYTHON @ ''x = 1'' @ ESC_N @ ''y = 2''))
          (FENCE_PYTHON @ NL)
   \<and> \<not> str_startswith (str_strip (''see '' @ FENCE_PYTHON @ ''x = 1'' @ ESC_N @ ''y = 2'')) FENCE
   \<and> loop_body (''see '' @ FENCE_PYTHON @ ''x = 1'' @ ESC_N @ ''y = 2'') ([], True)
       = ([''see'' @ NL, FENCE_PYTHON @ NL, ''x = 1'' @ NL, ''y = 2'' @ NL], True)"
proof -
  have s: "str_strip (''see '' @ FENCE_PYTHON @ ''x = 1'' @ ESC_N @ ''y = 2'')
           = ''see '' @ FENCE_PYTHON @ ''x = 1'' @ ESC_N @ ''y = 2''"
    by (simp add: consts_defs str_strip_def str_rstrip_def str_lstrip_def isspace_def)
  have h1: "str_contains (''see '' @ FENCE_PYTHON @ ''x = 1'' @ ESC_N @ ''y = 2'') FENCE_PYTHON"
    by (simp add: consts_defs)
  have h2: "20 < length (''see '' @ FENCE_PYTHON @ ''x = 1'' @ ESC_N @ ''y = 2'')"
    by (simp add: consts_defs)
  have h3: "str_strip (''see '' @ FENCE_PYTHON @ ''x = 1'' @ ESC_N @ ''y = 2'') \<noteq> FENCE_PYTHON"
    unfolding s by (simp add: consts_defs)
  have h4: "\<not> str_startswith (str_strip (''see '' @ FENCE_PYTHON @ ''x = 1'' @ ESC_N @ ''y = 2''))
          (FENCE_PYTHON @ NL)"
    unfolding s by (simp add: consts_defs str_startswith_def)
  have h5: "\<not> str_startswith (str_strip (''see '' @ FENCE_PYTHON @ ''x = 1'' @ ESC_N @ ''y = 2'')) FENCE"
    unfolding s by (simp add: consts_defs str_startswith_def)
  have h5': "\<not> (str_startswith (str_strip (''see '' @ FENCE_PYTHON @ ''x = 1'' @ ESC_N @ ''y = 2'')) FENCE
               \<and> True)"
    using h5 by simp
  have out: "loop_body (''see '' @ FENCE_PYTHON @ ''x = 1'' @ ESC_N @ ''y = 2'') ([], True)
       = ([''see'' @ NL, FENCE_PYTHON @ NL, ''x = 1'' @ NL, ''y = 2'' @ NL], True)"
    unfolding loop_body_def Let_def s
    by (simp add: consts_defs str_startswith_def str_rstrip_def isspace_def
          fix_code_block_line_def expand_part_def enumerate_eq_zip upt_rec)
  show ?thesis
    using C2_glued_fence_split [OF h1 h2 h3 h4 h5', of "[]"] h1 h2 h3 h4 h5 out by blast
qed

theorem C2_glued_fence_split_counterexample:
  "str_contains (FENCE_PYTHON @ ''def foo():'' @ ESC_N @ ''    return 1'' @ ESC_N) FENCE_PYTHON
   \<and> 20 < length (FENCE_PYTHON @ ''def foo():'' @ ESC_N @ ''    return 1'' @ ESC_N)
   \<and> str_strip (FENCE_PYTHON @ ''def foo():'' @ ESC_N @ ''    return 1'' @ ESC_N) \<noteq> FENCE_PYTHON
   \<and> loop_body (FENCE_PYTHON @ ''def foo():'' @ ESC_N @ ''    return 1'' @ ESC_N) ([], True)
       = ([FENCE_PYTHON @ ''def foo():'' @ ESC_N @ ''    return 1'' @ ESC_N], False)"
proof -
  have "loop_body (FENCE_PYTHON @ ''def foo():'' @ ESC_N @ ''    return 1'' @ ESC_N) ([], True)
       = ([FENCE_PYTHON @ ''def foo():'' @ ESC_N @ ''    return 1'' @ ESC_N], False)"
    unfolding loop_body_def Let_def example_glued_strip
    by (simp add: consts_defs str_startswith_def)
  moreover have "str_strip (FENCE_PYTHON @ ''def foo():'' @ ESC_N @ ''    return 1'' @ ESC_N)
      \<noteq> FENCE_PYTHON"
    unfolding example_glued_strip by (simp add: consts_defs)
  ultimately show ?thesis
    using example_glued_contains by (simp add: consts_defs)
qed

text \<open>
  C3, as amended: a line read while the state is inside a block, that contains the
  sequence backslash, n and is longer than 150 characters, and that none of the three
  earlier branches takes (fence open, fence close, glued fence), is replaced by what the
  line expander returns for it, and the state stays inside. A line that none of the four
  branches takes is appended unchanged and the state stays as it was.
\<close>

theorem C3_collapsed_line_expanded:
  "(in_python_block \<and> str_contains line ESC_N \<and> 150 < length line
      \<and> \<not> (str_strip line = FENCE_PYTHON
            \<or> str_startswith (str_strip line) (FENCE_PYTHON @ NL))
      \<and> \<not> str_startswith (str_strip line) FENCE
      \<and> \<not> (str_contains line FENCE_PYTHON \<and> 20 < length line
            \<and> str_strip line \<noteq> FENCE_PYTHON)
    \<longrightarrow> loop_body line (result, in_python_block) = (result @ fix_code_block_line line, True))
   \<and> (\<not> (str_strip line = FENCE_PYTHON
            \<or> str_startswith (str_strip line) (FENCE_PYTHON @ NL))
      \<and> \<not> (str_startswith (str_strip line) FENCE \<and> in_python_block)
      \<and> \<not> (str_contains line FENCE_PYTHON \<and> 20 < length line
            \<and> str_strip line \<noteq> FENCE_PYTHON)
      \<and> \<not> (in_python_block \<and> str_contains line ESC_N \<and> 150 < length line)
    \<longrightarrow> loop_body line (result, in_python_block) = (result @ [line], in_python_block))"
  by (auto simp: loop_body_def Let_def)

theorem C3_collapsed_line_expanded_witness:
  "str_contains (''x = 1'' @ ESC_N @ replicate 150 (CHR ''y'')) ESC_N
   \<and> 150 < length (''x = 1'' @ ESC_N @ replicate 150 (CHR ''y''))
   \<and> loop_body (''x = 1'' @ ESC_N @ replicate 150 (CHR ''y'')) ([''a''], True)
       = ([''a'', ''x = 1'' @ NL, replicate 150 (CHR ''y'') @ NL], True)
   \<and> str_contains (''x = 1'' @ ESC_N @ NL) ESC_N
   \<and> loop_body (''x = 1'' @ ESC_N @ NL) ([''a''], True)
       = ([''a'', ''x = 1'' @ ESC_N @ NL], True)"
  using C3_collapsed_line_expanded
          [of True "''x = 1'' @ ESC_N @ replicate 150 (CHR ''y'')" "[''a'']"]
        C3_collapsed_line_expanded [of True "''x = 1'' @ ESC_N @ NL" "[''a'']"]
        long_line_facts short_line_facts
  by simp

theorem C3_collapsed_line_expanded_counterexample:
  "str_contains (FENCE @ ESC_N @ replicate 150 (CHR ''y'')) ESC_N
   \<and> 150 < length (FENCE @ ESC_N @ replicate 150 (CHR ''y''))
   \<and> loop_body (FENCE @ ESC_N @ replicate 150 (CHR ''y'')) ([], True)
       = ([FENCE @ ESC_N @ replicate 150 (CHR ''y'')], False)
   \<and> fix_code_block_line (FENCE @ ESC_N @ replicate 150 (CHR ''y''))
       = [FENCE @ NL, replicate 150 (CHR ''y'') @ NL]"
  by code_simp

text \<open>
  C4, as amended: a line read while the state is outside a block is appended unchanged,
  as one line, unless it is a glued fence line (it contains the Python fence marker, is
  longer than 20 characters, and its stripped content is neither the marker nor starts
  with the marker and a line feed); this holds for every such line of every document.
  A document none of whose lines contains the marker is rewritten to itself, with an
  expansion of 0.
\<close>

theorem C4_outside_lines_unchanged:
  "(\<not> (str_contains line FENCE_PYTHON \<and> 20 < length line
         \<and> str_strip line \<noteq> FENCE_PYTHON
         \<and> \<not> str_startswith (str_strip line) (FENCE_PYTHON @ NL))
    \<longrightarrow> loop_body line (result, False) =
          (result @ [line],
           str_strip line = FENCE_PYTHON
           \<or> str_startswith (str_strip line) (FENCE_PYTHON @ NL))
        \<and> (state_after False before = False
            \<longrightarrow> rewrite (before @ line # after) =
                  rewrite before @ [line] @ run (line_state False line) after))
   \<and> ((\<forall>l \<in> set lines. \<not> str_contains l FENCE_PYTHON)
    \<longrightarrow> rewrite lines = lines \<and> expansion lines = 0)"
proof (intro conjI impI)
  assume a: "\<not> (str_contains line FENCE_PYTHON \<and> 20 < length line
         \<and> str_strip line \<noteq> FENCE_PYTHON
         \<and> \<not> str_startswith (str_strip line) (FENCE_PYTHON @ NL))"
  show "loop_body line (result, False) =
          (result @ [line],
           str_strip line = FENCE_PYTHON
           \<or> str_startswith (str_strip line) (FENCE_PYTHON @ NL))"
    using a by (rule loop_body_outside_plain)
  assume "state_after False before = False"
  then show "rewrite (before @ line # after) =
                  rewrite before @ [line] @ run (line_state False line) after"
    using a by (rule rewrite_append_outside)
next
  assume n: "\<forall>l \<in> set lines. \<not> str_contains l FENCE_PYTHON"
  then show r: "rewrite lines = lines" using run_no_marker by (simp add: rewrite_run)
  show "expansion lines = 0" using n run_no_marker by (simp add: expansion_def rewrite_run)
qed

theorem C4_outside_lines_unchanged_witness:
  "\<not> str_contains (''x = 1'' @ ESC_N @ replicate 150 (CHR ''y'')) FENCE_PYTHON
   \<and> loop_body (''x = 1'' @ ESC_N @ replicate 150 (CHR ''y'')) ([''a''], False)
       = ([''a'', ''x = 1'' @ ESC_N @ replicate 150 (CHR ''y'')], False)
   \<and> state_after False [FENCE_PYTHON @ NL, FENCE @ NL] = False
   \<and> rewrite ([FENCE_PYTHON @ NL, FENCE @ NL]
               @ (''x = 1'' @ ESC_N @ replicate 150 (CHR ''y'')) # [''z''])
       = [FENCE_PYTHON @ NL, FENCE @ NL, ''x = 1'' @ ESC_N @ replicate 150 (CHR ''y''), ''z'']
   \<and> rewrite [''# Title'' @ NL, FENCE @ NL, ''x'' @ ESC_N @ NL, FENCE @ NL]
       = [''# Title'' @ NL, FENCE @ NL, ''x'' @ ESC_N @ NL, FENCE @ NL]
   \<and> expansion [''# Title'' @ NL, FENCE @ NL, ''x'' @ ESC_N @ NL, FENCE @ NL] = 0"
proof -
  have e: "\<not> str_contains (''x = 1'' @ ESC_N @ replicate 150 (CHR ''y'')) FENCE_PYTHON
     \<and> str_strip (''x = 1'' @ ESC_N @ replicate 150 (CHR ''y'')) \<noteq> FENCE_PYTHON
     \<and> \<not> str_startswith (str_strip (''x = 1'' @ ESC_N @ replicate 150 (CHR ''y'')))
            (FENCE_PYTHON @ NL)
     \<and> state_after False [FENCE_PYTHON @ NL, FENCE @ NL] = False
     \<and> rewrite [FENCE_PYTHON @ NL, FENCE @ NL] = [FENCE_PYTHON @ NL, FENCE @ NL]
     \<and> run (line_state False (''x = 1'' @ ESC_N @ replicate 150 (CHR ''y''))) [''z''] = [''z'']
     \<and> (\<forall>l \<in> set [''# Title'' @ NL, FENCE @ NL, ''x'' @ ESC_N @ NL, FENCE @ NL].
           \<not> str_contains l FENCE_PYTHON)"
    by code_simp
  show ?thesis
    using C4_outside_lines_unchanged
            [of "''x = 1'' @ ESC_N @ replicate 150 (CHR ''y'')" "[''a'']"
                "[FENCE_PYTHON @ NL, FENCE @ NL]" "[''z'']"
                "[''# Title'' @ NL, FENCE @ NL, ''x'' @ ESC_N @ NL, FENCE @ NL]"]
          e
    by simp
qed

theorem C4_outside_lines_unchanged_counterexample:
  "loop_body (''Use '' @ FENCE_PYTHON @ '' to open a block.'') ([], False)
     = ([''Use'' @ NL, FENCE_PYTHON @ NL, '' to open a block.''], True)
   \<and> rewrite [''Use '' @ FENCE_PYTHON @ '' to open a block.'']
       = [''Use'' @ NL, FENCE_PYTHON @ NL, '' to open a block.'']
   \<and> ''Use '' @ FENCE_PYTHON @ '' to open a block.''
       \<notin> set (rewrite [''Use '' @ FENCE_PYTHON @ '' to open a block.''])"
  by code_simp




end
